theory Spec2Isabelle
  imports Complex_Main "HOL-Library.Word"
begin

section \<open>Constants of Server.py and Client.py\<close>

text \<open>
  Both files start with the same block of constants. Python integers are unbounded, so
  they are modelled as \<open>int\<close>; a byte string is a list of 8-bit words.
\<close>

type_synonym byte = "8 word"
type_synonym bytes = "byte list"

definition MAGIC_COOKIE :: int where
  "MAGIC_COOKIE = 0xabcddcba"

definition OFFER_MESSAGE_TYPE :: int where
  "OFFER_MESSAGE_TYPE = 0x2"

definition REQUEST_MESSAGE_TYPE :: int where
  "REQUEST_MESSAGE_TYPE = 0x3"

definition PAYLOAD_MESSAGE_TYPE :: int where
  "PAYLOAD_MESSAGE_TYPE = 0x4"

definition UDP_PORT :: int where
  "UDP_PORT = 14117"

definition TCP_PORT :: int where
  "TCP_PORT = 65432"

definition BUFFER_SIZE :: int where
  "BUFFER_SIZE = 1024"

text \<open>The exceptions the modelled code can meet.\<close>

datatype py_error = StructError | ZeroDivisionError | OSError

section \<open>The struct module: fixed-width big-endian fields\<close>

text \<open>
  \<open>struct.pack('!...')\<close> writes every field in network byte order without padding:
  \<open>I\<close> is 4 bytes, \<open>B\<close> 1, \<open>H\<close> 2 and \<open>Q\<close> 8, all unsigned. A value outside
  the range of its field raises \<open>struct.error\<close>; \<open>struct.unpack\<close> raises it when the
  buffer does not have exactly the size of the format.
\<close>

fun be_bytes :: "nat \<Rightarrow> int \<Rightarrow> bytes" where
  "be_bytes 0 v = []"
| "be_bytes (Suc n) v = be_bytes n (v div 256) @ [word_of_int (v mod 256)]"

definition be_int :: "bytes \<Rightarrow> int" where
  "be_int bs = foldl (\<lambda>a b. a * 256 + uint b) 0 bs"

definition in_range :: "nat \<Rightarrow> int \<Rightarrow> bool" where
  "in_range n v \<longleftrightarrow> 0 \<le> v \<and> v < 256 ^ n"

definition pack_IBHH :: "int \<Rightarrow> int \<Rightarrow> int \<Rightarrow> int \<Rightarrow> py_error + bytes" where
  "pack_IBHH a b c d =
     (if in_range 4 a \<and> in_range 1 b \<and> in_range 2 c \<and> in_range 2 d
      then Inr (be_bytes 4 a @ be_bytes 1 b @ be_bytes 2 c @ be_bytes 2 d)
      else Inl StructError)"

definition unpack_IBHH :: "bytes \<Rightarrow> py_error + (int \<times> int \<times> int \<times> int)" where
  "unpack_IBHH bs =
     (if length bs = 9
      then Inr (be_int (take 4 bs), be_int (take 1 (drop 4 bs)),
                be_int (take 2 (drop 5 bs)), be_int (take 2 (drop 7 bs)))
      else Inl StructError)"

definition pack_IBQ :: "int \<Rightarrow> int \<Rightarrow> int \<Rightarrow> py_error + bytes" where
  "pack_IBQ a b c =
     (if in_range 4 a \<and> in_range 1 b \<and> in_range 8 c
      then Inr (be_bytes 4 a @ be_bytes 1 b @ be_bytes 8 c)
      else Inl StructError)"

definition unpack_IBQ :: "bytes \<Rightarrow> py_error + (int \<times> int \<times> int)" where
  "unpack_IBQ bs =
     (if length bs = 13
      then Inr (be_int (take 4 bs), be_int (take 1 (drop 4 bs)), be_int (take 8 (drop 5 bs)))
      else Inl StructError)"

definition pack_IBQQ :: "int \<Rightarrow> int \<Rightarrow> int \<Rightarrow> int \<Rightarrow> py_error + bytes" where
  "pack_IBQQ a b c d =
     (if in_range 4 a \<and> in_range 1 b \<and> in_range 8 c \<and> in_range 8 d
      then Inr (be_bytes 4 a @ be_bytes 1 b @ be_bytes 8 c @ be_bytes 8 d)
      else Inl StructError)"


section \<open>Discovery: send\_offers (Server.py) and listen\_for\_offers (Client.py)\<close>

text \<open>
  \<open>send_offers\<close> packs one offer before its loop and broadcasts the same bytes every
  second. \<open>offer_message\<close> takes the two ports as arguments so that the encoding can be
  stated for any pair of ports; \<open>send_offers_message\<close> is the call the source makes.
\<close>

definition offer_message :: "int \<Rightarrow> int \<Rightarrow> py_error + bytes" where
  "offer_message udp_port tcp_port =
     pack_IBHH MAGIC_COOKIE OFFER_MESSAGE_TYPE udp_port tcp_port"

definition send_offers_message :: "py_error + bytes" where
  "send_offers_message = offer_message UDP_PORT TCP_PORT"

text \<open>
  One iteration of the listener's loop sees either a datagram with its sender's address
  (\<open>recvfrom\<close> returns at most \<open>BUFFER_SIZE\<close> bytes of it) or an exception, which the
  loop's handler logs before the loop goes on. The listener is run on the finite list of
  what its first iterations see: \<open>Some\<close> is the returned triple
  \<open>(address[0], tcp_port, udp_port)\<close>, \<open>None\<close> means that no iteration so far has
  returned and the loop is still receiving.
\<close>

type_synonym address = "string \<times> int"

datatype recv_event = Received bytes address | ReceiveError

definition recvfrom :: "int \<Rightarrow> bytes \<Rightarrow> bytes" where
  "recvfrom bufsize dgram = take (nat bufsize) dgram"

fun listen_for_offers :: "recv_event list \<Rightarrow> (string \<times> int \<times> int) option" where
  "listen_for_offers [] = None"
| "listen_for_offers (ReceiveError # evs) = listen_for_offers evs"
| "listen_for_offers (Received dgram addr # evs) =
     (let message = recvfrom BUFFER_SIZE dgram in
      if length message \<ge> 9 then
        (case unpack_IBHH (take 9 message) of
           Inl e \<Rightarrow> listen_for_offers evs
         | Inr (cookie, message_type, udp_port, tcp_port) \<Rightarrow>
             if cookie = MAGIC_COOKIE \<and> message_type = OFFER_MESSAGE_TYPE
             then Some (fst addr, tcp_port, udp_port)
             else listen_for_offers evs)
      else listen_for_offers evs)"

section \<open>Unreliable transfer, server side: start\_udp\_server and handle\_udp\_client\<close>

text \<open>
  One iteration of \<open>start_udp_server\<close>: a datagram of at least 13 bytes whose first 13
  bytes unpack to the magic cookie and the request type starts a handler thread with the
  unpacked size. \<open>udp_server_dispatch\<close> gives the \<open>file_size\<close> handed to the handler,
  \<open>None\<close> when no handler is started.
\<close>

definition udp_server_dispatch :: "bytes \<Rightarrow> int option" where
  "udp_server_dispatch dgram =
     (let data = recvfrom BUFFER_SIZE dgram in
      if length data \<ge> 13 then
        (case unpack_IBQ (take 13 data) of
           Inl e \<Rightarrow> None
         | Inr (cookie, message_type, file_size) \<Rightarrow>
             if cookie = MAGIC_COOKIE \<and> message_type = REQUEST_MESSAGE_TYPE
             then Some file_size
             else None)
      else None)"

text \<open>
  The handler's \<open>for segment_num in range(total_segments)\<close> loop. The state is the list of
  datagrams that \<open>sendto\<close> has accepted so far, in order, and \<open>bytes_sent\<close>. The loop calls
  \<open>sendto\<close> once per segment; \<open>sendto k\<close> is what the call for segment \<open>k\<close> raises,
  \<open>None\<close> when it returns. Both \<open>struct.pack\<close> and \<open>sendto\<close> can raise, which ends the
  loop in the handler's \<open>except Exception\<close> with what was sent before. \<open>b'X' * n\<close> is
  empty for a negative \<open>n\<close>.
\<close>

definition filler_X :: byte where
  "filler_X = 0x58"

record udp_handler_result =
  sent :: "bytes list"
  bytes_sent :: int
  raised :: "py_error option"
  printed_speed :: "real option"

fun udp_send_loop ::
  "int \<Rightarrow> nat list \<Rightarrow> (nat \<Rightarrow> py_error option) \<Rightarrow> bytes list \<Rightarrow> int \<Rightarrow> udp_handler_result"
where
  "udp_send_loop total_segments [] sendto out n =
     \<lparr>sent = out, bytes_sent = n, raised = None, printed_speed = None\<rparr>"
| "udp_send_loop total_segments (segment_num # rest) sendto out n =
     (case pack_IBQQ MAGIC_COOKIE PAYLOAD_MESSAGE_TYPE total_segments (int segment_num) of
        Inl e \<Rightarrow> \<lparr>sent = out, bytes_sent = n, raised = Some e, printed_speed = None\<rparr>
      | Inr header \<Rightarrow>
          (let payload = header @ replicate (nat (BUFFER_SIZE - int (length header))) filler_X
           in case sendto segment_num of
                Some e \<Rightarrow> \<lparr>sent = out, bytes_sent = n, raised = Some e, printed_speed = None\<rparr>
              | None \<Rightarrow>
                  udp_send_loop total_segments rest sendto (out @ [payload])
                    (n + int (length payload))))"

text \<open>
  The handler itself. \<open>socket_error\<close> is what \<open>socket.socket\<close> raises when the handler
  opens its socket (\<open>None\<close> when it returns), \<open>start_time\<close> and \<open>end_time\<close> are the two
  readings of the clock. After the loop the speed is computed by a plain division, and
  dividing by a zero float raises \<open>ZeroDivisionError\<close>. Every exception ends in the
  handler's \<open>except Exception\<close>, which prints it: \<open>raised\<close> is the exception caught,
  \<open>printed_speed\<close> the speed printed when there is none. Python's \<open>/\<close> is modelled by
  division of real numbers, without rounding.
\<close>

definition handle_udp_client ::
  "int \<Rightarrow> py_error option \<Rightarrow> (nat \<Rightarrow> py_error option) \<Rightarrow> real \<Rightarrow> real \<Rightarrow> udp_handler_result"
where
  "handle_udp_client file_size socket_error sendto start_time end_time =
     (let total_segments = file_size div BUFFER_SIZE in
      case socket_error of
        Some e \<Rightarrow> \<lparr>sent = [], bytes_sent = 0, raised = Some e, printed_speed = None\<rparr>
      | None \<Rightarrow>
          (let r = udp_send_loop total_segments [0 ..< nat total_segments] sendto [] 0 in
           case raised r of
             Some e \<Rightarrow> r
           | None \<Rightarrow>
               if end_time - start_time = 0
               then r\<lparr>raised := Some ZeroDivisionError\<rparr>
               else r\<lparr>printed_speed :=
                        Some ((real_of_int (bytes_sent r) / (end_time - start_time)) * 8)\<rparr>))"

section \<open>Unreliable transfer, client side: udp\_transfer\<close>

text \<open>
  The client's loop \<open>while time.time() - start_time < 1\<close> calls \<open>recvfrom\<close> once per
  iteration. An iteration sees a datagram, a \<open>socket.timeout\<close> (the loop breaks) or
  another exception of the socket (it leaves the function through the outer handler, and
  no statistics are computed). The list holds what the iterations see in order; when it is
  used up the window of one second has passed and the loop condition is false.
\<close>

datatype udp_event = Arrival bytes | RecvTimeout | RecvFailure

fun udp_recv_loop :: "udp_event list \<Rightarrow> int \<Rightarrow> int \<Rightarrow> py_error + (int \<times> int)" where
  "udp_recv_loop [] received_segments total_received =
     Inr (received_segments, total_received)"
| "udp_recv_loop (RecvTimeout # evs) received_segments total_received =
     Inr (received_segments, total_received)"
| "udp_recv_loop (RecvFailure # evs) received_segments total_received =
     Inl OSError"
| "udp_recv_loop (Arrival dgram # evs) received_segments total_received =
     (let data = recvfrom BUFFER_SIZE dgram in
      if length data \<ge> 20
      then udp_recv_loop evs (received_segments + 1) (total_received + (int (length data) - 20))
      else udp_recv_loop evs received_segments total_received)"

text \<open>
  The whole function. \<open>socket_error\<close> is what \<open>socket.socket\<close> raises and \<open>sendto_error\<close>
  what the \<open>sendto\<close> of the request raises (\<open>None\<close> when the call returns); the request is
  packed between the two. \<open>start_time\<close> and \<open>end_time\<close> are the two readings of the
  clock. Every exception ends in the function's \<open>except Exception\<close>, which prints it, and
  then no statistics are computed: the result is the exception caught or the statistics
  printed. Python's \<open>/\<close> on integers and floats is modelled by division of real numbers,
  without rounding.
\<close>

record udp_report =
  total_segments :: int
  received_segments :: int
  total_received :: int
  success_rate :: real
  speed :: real


section \<open>Reliable transfer, client side: tcp\_transfer\<close>

text \<open>
  \<open>recv k\<close> is what the \<open>k\<close>-th call of \<open>tcp_socket.recv(BUFFER_SIZE)\<close> returns: a byte
  string, empty once the peer has closed the connection, or an exception. The loop
  \<open>while received < file_size\<close> has no other exit, so it is a partial function: \<open>None\<close>
  is a loop that never ends, \<open>Some (Inl e)\<close> an exception that leaves it, \<open>Some (Inr n)\<close>
  its normal end with \<open>received = n\<close>.
\<close>

partial_function (option) tcp_recv_loop ::
  "(nat \<Rightarrow> py_error + bytes) \<Rightarrow> int \<Rightarrow> nat \<Rightarrow> int \<Rightarrow> (py_error + int) option" where
  "tcp_recv_loop recv file_size k received =
     (if received < file_size then
        (case recv k of
           Inl e \<Rightarrow> Some (Inl e)
         | Inr data \<Rightarrow> tcp_recv_loop recv file_size (Suc k) (received + int (length data)))
      else Some (Inr received))"

declare tcp_recv_loop.simps [code]

text \<open>
  The whole function. \<open>connect_error\<close> is what \<open>socket.socket\<close>, \<open>connect\<close> or \<open>sendall\<close>
  raises before the loop, \<open>None\<close> when the three calls return. After the loop the speed
  is computed by a plain division; dividing by a zero float raises \<open>ZeroDivisionError\<close>.
  Every exception ends in the function's \<open>except Exception\<close>, which prints it. The result
  is the speed printed or the exception caught, \<open>None\<close> when the loop never ends.
\<close>

definition tcp_transfer ::
  "py_error option \<Rightarrow> (nat \<Rightarrow> py_error + bytes) \<Rightarrow> int \<Rightarrow> real \<Rightarrow> real \<Rightarrow>
   (py_error + real) option" where
  "tcp_transfer connect_error recv file_size start_time end_time =
     (case connect_error of
        Some e \<Rightarrow> Some (Inl e)
      | None \<Rightarrow>
          (case tcp_recv_loop recv file_size 0 0 of
             None \<Rightarrow> None
           | Some (Inl e) \<Rightarrow> Some (Inl e)
           | Some (Inr received) \<Rightarrow>
               Some (if end_time - start_time = 0
                     then Inl ZeroDivisionError
                     else Inr ((real_of_int received / (end_time - start_time)) * 8))))"

text \<open>The bytes the first \<open>n\<close> calls of \<open>recv\<close> return, exceptions counting for nothing.\<close>

fun delivered :: "(nat \<Rightarrow> py_error + bytes) \<Rightarrow> nat \<Rightarrow> int" where
  "delivered recv 0 = 0"
| "delivered recv (Suc n) =
     delivered recv n + (case recv n of Inl e \<Rightarrow> 0 | Inr data \<Rightarrow> int (length data))"

text \<open>
  A connection that delivers the chunks of a list, one per call, and is then closed by the
  peer: every later \<open>recv\<close> returns the empty byte string.
\<close>

definition closing_stream :: "bytes list \<Rightarrow> nat \<Rightarrow> py_error + bytes" where
  "closing_stream chunks k = (if k < length chunks then Inr (chunks ! k) else Inr [])"

section \<open>Server sockets: start\_tcp\_server and start\_udp\_server\<close>

text \<open>
  The calls each server function makes on its socket before its accept or receive loop,
  in order, with their literal arguments.
\<close>

datatype sock_kind = SOCK_STREAM | SOCK_DGRAM

datatype sock_call = Socket sock_kind | SetReuseAddr | Bind string int | Listen

definition start_tcp_server_setup :: "sock_call list" where
  "start_tcp_server_setup =
     [Socket SOCK_STREAM, SetReuseAddr, Bind ''172.20.10.3'' TCP_PORT, Listen]"

definition start_udp_server_setup :: "sock_call list" where
  "start_udp_server_setup =
     [Socket SOCK_DGRAM, SetReuseAddr, Bind ''172.20.10.3'' UDP_PORT]"

fun bind_hosts :: "sock_call list \<Rightarrow> string list" where
  "bind_hosts [] = []"
| "bind_hosts (Bind host port # cs) = host # bind_hosts cs"
| "bind_hosts (c # cs) = bind_hosts cs"

section \<open>Facts about the encoding\<close>

lemma length_be_bytes [simp]: "length (be_bytes n v) = n"
  by (induction n arbitrary: v) simp_all

lemma be_int_Nil [simp]: "be_int [] = 0"
  by (simp add: be_int_def)

lemma be_int_snoc [simp]: "be_int (bs @ [b]) = be_int bs * 256 + uint b"
  by (simp add: be_int_def)

lemma uint_byte_of_mod: "uint (word_of_int (v mod 256) :: byte) = v mod 256"
  by (simp add: uint_word_of_int take_bit_eq_mod)

lemma be_int_be_bytes: "in_range n v \<Longrightarrow> be_int (be_bytes n v) = v"
proof (induction n arbitrary: v)
  case 0
  then show ?case by (simp add: in_range_def)
next
  case (Suc n)
  from Suc.prems have "0 \<le> v" and "v < 256 ^ n * 256"
    by (simp_all add: in_range_def mult.commute)
  then have "in_range n (v div 256)"
    unfolding in_range_def by (simp add: div_less_iff_less_mult pos_imp_zdiv_nonneg_iff)
  then have "be_int (be_bytes n (v div 256)) = v div 256"
    by (rule Suc.IH)
  then show ?case
    by (simp add: uint_byte_of_mod)
qed




lemma unpack_pack_IBHH:
  "pack_IBHH a b c d = Inr msg \<Longrightarrow> length msg = 9 \<and> unpack_IBHH msg = Inr (a, b, c, d)"
  by (auto simp: pack_IBHH_def unpack_IBHH_def be_int_be_bytes
      simp del: be_bytes.simps split: if_splits)

lemma unpack_pack_IBQ:
  "pack_IBQ a b c = Inr msg \<Longrightarrow> length msg = 13 \<and> unpack_IBQ msg = Inr (a, b, c)"
  by (auto simp: pack_IBQ_def unpack_IBQ_def be_int_be_bytes
      simp del: be_bytes.simps split: if_splits)


lemma magic_in_range: "in_range 4 MAGIC_COOKIE"
  by (simp add: in_range_def MAGIC_COOKIE_def)

text \<open>The offer the server broadcasts, byte by byte.\<close>

lemma send_offers_message_bytes:
  "send_offers_message = Inr [0xab, 0xcd, 0xdc, 0xba, 0x02, 0x37, 0x25, 0xff, 0x98]"
  by (simp add: send_offers_message_def offer_message_def pack_IBHH_def in_range_def
      MAGIC_COOKIE_def OFFER_MESSAGE_TYPE_def UDP_PORT_def TCP_PORT_def eval_nat_numeral)

section \<open>Discovery\<close>

text \<open>
  Claim C5. For every pair of 16-bit ports, the 9-byte offer that \<open>send_offers\<close> would pack
  for them (magic cookie, offer type, UDP port, TCP port, network byte order) exists,
  unpacks to the same four fields, and makes the discovery listener return the sender's
  host with exactly the TCP port and the UDP port that were encoded.
\<close>

theorem offer_roundtrip:
  assumes "0 \<le> udp_port" "udp_port < 65536" "0 \<le> tcp_port" "tcp_port < 65536"
  shows "\<exists>msg. offer_message udp_port tcp_port = Inr msg \<and> length msg = 9 \<and>
           unpack_IBHH msg = Inr (MAGIC_COOKIE, OFFER_MESSAGE_TYPE, udp_port, tcp_port) \<and>
           listen_for_offers (Received msg (ip, p) # evs) = Some (ip, tcp_port, udp_port)"
proof -
  have "in_range 1 OFFER_MESSAGE_TYPE"
    by (simp add: in_range_def OFFER_MESSAGE_TYPE_def)
  moreover have "in_range 2 udp_port" "in_range 2 tcp_port"
    using assms by (simp_all add: in_range_def)
  ultimately obtain msg where m: "offer_message udp_port tcp_port = Inr msg"
    using magic_in_range by (simp add: offer_message_def pack_IBHH_def)
  then have u: "length msg = 9"
    "unpack_IBHH msg = Inr (MAGIC_COOKIE, OFFER_MESSAGE_TYPE, udp_port, tcp_port)"
    using unpack_pack_IBHH [of MAGIC_COOKIE OFFER_MESSAGE_TYPE udp_port tcp_port msg]
    by (simp_all add: offer_message_def)
  then have "listen_for_offers (Received msg (ip, p) # evs) = Some (ip, tcp_port, udp_port)"
    by (simp add: recvfrom_def BUFFER_SIZE_def)
  with m u show ?thesis by blast
qed

theorem offer_roundtrip_witness:
  "(0::int) \<le> 14117 \<and> (14117::int) < 65536 \<and> (0::int) \<le> 65432 \<and> (65432::int) < 65536 \<and>
   (\<exists>msg. offer_message 14117 65432 = Inr msg \<and> length msg = 9 \<and>
       unpack_IBHH msg = Inr (MAGIC_COOKIE, OFFER_MESSAGE_TYPE, 14117, 65432) \<and>
       listen_for_offers [Received msg (''172.20.10.3'', 14117)]
         = Some (''172.20.10.3'', 65432, 14117))"
  using offer_roundtrip [of 14117 65432 "''172.20.10.3''" 14117 "[]"] by simp

lemma listen_step:
  "listen_for_offers (Received dgram addr # evs) =
     (if 9 \<le> length dgram \<and> be_int (take 4 dgram) = MAGIC_COOKIE \<and>
         be_int (take 1 (drop 4 dgram)) = OFFER_MESSAGE_TYPE
      then Some (fst addr, be_int (take 2 (drop 7 dgram)), be_int (take 2 (drop 5 dgram)))
      else listen_for_offers evs)"
  by (simp add: recvfrom_def BUFFER_SIZE_def unpack_IBHH_def drop_take min_def)

declare listen_for_offers.simps(3) [simp del]

lemma listen_Some_split:
  "listen_for_offers evs = Some (ip, tcp_port, udp_port) \<Longrightarrow>
   \<exists>pre dgram port post.
      evs = pre @ Received dgram (ip, port) # post \<and> listen_for_offers pre = None \<and>
      9 \<le> length dgram \<and> be_int (take 4 dgram) = MAGIC_COOKIE \<and>
      be_int (take 1 (drop 4 dgram)) = OFFER_MESSAGE_TYPE \<and>
      udp_port = be_int (take 2 (drop 5 dgram)) \<and> tcp_port = be_int (take 2 (drop 7 dgram))"
  (is "_ \<Longrightarrow> \<exists>pre dgram port post. ?Q evs pre dgram port post")
proof (induction evs)
  case Nil
  then show ?case by simp
next
  case (Cons ev evs)
  show ?case
  proof (cases ev)
    case ReceiveError
    with Cons.prems have "listen_for_offers evs = Some (ip, tcp_port, udp_port)" by simp
    then obtain pre dgram port post where "?Q evs pre dgram port post"
      using Cons.IH by blast
    with ReceiveError have "?Q (ev # evs) (ReceiveError # pre) dgram port post" by simp
    then show ?thesis by blast
  next
    case (Received d addr)
    let ?valid = "9 \<le> length d \<and> be_int (take 4 d) = MAGIC_COOKIE \<and>
         be_int (take 1 (drop 4 d)) = OFFER_MESSAGE_TYPE"
    show ?thesis
    proof (cases ?valid)
      case True
      with Cons.prems Received have "ip = fst addr" "tcp_port = be_int (take 2 (drop 7 d))"
        "udp_port = be_int (take 2 (drop 5 d))"
        by (simp_all add: listen_step)
      with True Received have "?Q (ev # evs) [] d (snd addr) evs" by simp
      then show ?thesis by blast
    next
      case False
      then have skip: "listen_for_offers (Received d addr # es) = listen_for_offers es" for es
        by (simp only: listen_step if_False)
      with Cons.prems Received have "listen_for_offers evs = Some (ip, tcp_port, udp_port)"
        by simp
      then obtain pre dgram port post where "?Q evs pre dgram port post"
        using Cons.IH by blast
      with skip Received have "?Q (ev # evs) (Received d addr # pre) dgram port post" by simp
      then show ?thesis by blast
    qed
  qed
qed

text \<open>
  Claim C6. The discovery listener returns only on a datagram of at least 9 bytes whose
  decoded magic is \<open>0xabcddcba\<close> and whose type is the offer type, with that sender's
  host and the two ports it carries, every earlier event having been passed over. A
  datagram that is shorter than 9 bytes, or has another magic (also at the right length),
  or another type, is discarded and the loop goes on with the next event, as it does
  after an exception of \<open>recvfrom\<close>; nothing is raised.
\<close>

theorem listener_returns_only_on_valid_offer:
  "(listen_for_offers evs = Some (ip, tcp_port, udp_port) \<longrightarrow>
      (\<exists>pre dgram port post.
         evs = pre @ Received dgram (ip, port) # post \<and> listen_for_offers pre = None \<and>
         9 \<le> length dgram \<and> be_int (take 4 dgram) = MAGIC_COOKIE \<and>
         be_int (take 1 (drop 4 dgram)) = OFFER_MESSAGE_TYPE \<and>
         udp_port = be_int (take 2 (drop 5 dgram)) \<and>
         tcp_port = be_int (take 2 (drop 7 dgram)))) \<and>
   (length d < 9 \<or> be_int (take 4 d) \<noteq> MAGIC_COOKIE \<or>
    be_int (take 1 (drop 4 d)) \<noteq> OFFER_MESSAGE_TYPE \<longrightarrow>
      listen_for_offers (Received d addr # rest) = listen_for_offers rest \<and>
      listen_for_offers [Received d addr] = None) \<and>
   listen_for_offers (ReceiveError # rest) = listen_for_offers rest"
proof (intro conjI impI)
  assume "listen_for_offers evs = Some (ip, tcp_port, udp_port)"
  then show "\<exists>pre dgram port post.
         evs = pre @ Received dgram (ip, port) # post \<and> listen_for_offers pre = None \<and>
         9 \<le> length dgram \<and> be_int (take 4 dgram) = MAGIC_COOKIE \<and>
         be_int (take 1 (drop 4 dgram)) = OFFER_MESSAGE_TYPE \<and>
         udp_port = be_int (take 2 (drop 5 dgram)) \<and>
         tcp_port = be_int (take 2 (drop 7 dgram))"
    by (rule listen_Some_split)
next
  assume "length d < 9 \<or> be_int (take 4 d) \<noteq> MAGIC_COOKIE \<or>
    be_int (take 1 (drop 4 d)) \<noteq> OFFER_MESSAGE_TYPE"
  then have inv: "\<not> (9 \<le> length d \<and> be_int (take 4 d) = MAGIC_COOKIE \<and>
         be_int (take 1 (drop 4 d)) = OFFER_MESSAGE_TYPE)"
    by auto
  show "listen_for_offers (Received d addr # rest) = listen_for_offers rest"
    using inv by (simp only: listen_step if_False)
  show "listen_for_offers [Received d addr] = None"
    using inv by (simp only: listen_step if_False listen_for_offers.simps(1))
next
  show "listen_for_offers (ReceiveError # rest) = listen_for_offers rest" by simp
qed


theorem listener_returns_only_on_valid_offer_witness:
  "listen_for_offers
     [Received [0xab, 0xcd, 0xdc, 0xbb, 0x02, 0x37, 0x25, 0xff, 0x98] (''10.0.0.9'', 5000),
      ReceiveError,
      Received [0xab, 0xcd, 0xdc, 0xba, 0x02, 0x37, 0x25, 0xff, 0x98] (''10.0.0.7'', 14117)]
     = Some (''10.0.0.7'', 65432, 14117) \<and>
   (\<exists>pre dgram port post.
      [Received [0xab, 0xcd, 0xdc, 0xbb, 0x02, 0x37, 0x25, 0xff, 0x98] (''10.0.0.9'', 5000),
       ReceiveError,
       Received [0xab, 0xcd, 0xdc, 0xba, 0x02, 0x37, 0x25, 0xff, 0x98] (''10.0.0.7'', 14117)]
        = pre @ Received dgram (''10.0.0.7'', port) # post \<and>
      listen_for_offers pre = None \<and> 9 \<le> length dgram \<and>
      be_int (take 4 dgram) = MAGIC_COOKIE \<and>
      be_int (take 1 (drop 4 dgram)) = OFFER_MESSAGE_TYPE \<and>
      14117 = be_int (take 2 (drop 5 dgram)) \<and> 65432 = be_int (take 2 (drop 7 dgram))) \<and>
   be_int (take 4 [0xab, 0xcd, 0xdc, 0xbb, 0x02, 0x37, 0x25, 0xff, 0x98 :: byte]) \<noteq> MAGIC_COOKIE \<and>
   listen_for_offers
     [Received [0xab, 0xcd, 0xdc, 0xbb, 0x02, 0x37, 0x25, 0xff, 0x98] (''10.0.0.9'', 5000)]
     = None"
  using listener_returns_only_on_valid_offer
    [of "[Received [0xab, 0xcd, 0xdc, 0xbb, 0x02, 0x37, 0x25, 0xff, 0x98] (''10.0.0.9'', 5000),
          ReceiveError,
          Received [0xab, 0xcd, 0xdc, 0xba, 0x02, 0x37, 0x25, 0xff, 0x98] (''10.0.0.7'', 14117)]"
        "''10.0.0.7''" 65432 14117
        "[0xab, 0xcd, 0xdc, 0xbb, 0x02, 0x37, 0x25, 0xff, 0x98]" "(''10.0.0.9'', 5000)" "[]"]
  by (simp add: listen_step be_int_def MAGIC_COOKIE_def OFFER_MESSAGE_TYPE_def)

lemma pack_payload_header:
  assumes "in_range 8 ts" "in_range 8 (int i)"
  shows "pack_IBQQ MAGIC_COOKIE PAYLOAD_MESSAGE_TYPE ts (int i) =
      Inr (be_bytes 4 MAGIC_COOKIE @ be_bytes 1 PAYLOAD_MESSAGE_TYPE @
           be_bytes 8 ts @ be_bytes 8 (int i))"
proof -
  have "in_range 1 PAYLOAD_MESSAGE_TYPE"
    by (simp add: in_range_def PAYLOAD_MESSAGE_TYPE_def)
  with assms magic_in_range show ?thesis
    by (simp add: pack_IBQQ_def)
qed

lemma udp_send_loop_all:
  assumes "in_range 8 ts" "\<forall>i \<in> set segs. in_range 8 (int i)"
    and "\<forall>i \<in> set segs. sendto i = None"
  shows "udp_send_loop ts segs sendto out n =
    \<lparr>sent = out @ map (\<lambda>i. be_bytes 4 MAGIC_COOKIE @ be_bytes 1 PAYLOAD_MESSAGE_TYPE @
                            be_bytes 8 ts @ be_bytes 8 (int i) @ replicate 1003 filler_X) segs,
     bytes_sent = n + 1024 * int (length segs), raised = None, printed_speed = None\<rparr>"
  using assms
proof (induction segs arbitrary: out n)
  case Nil
  then show ?case by simp
next
  case (Cons i segs)
  from Cons.prems have p: "pack_IBQQ MAGIC_COOKIE PAYLOAD_MESSAGE_TYPE ts (int i) =
      Inr (be_bytes 4 MAGIC_COOKIE @ be_bytes 1 PAYLOAD_MESSAGE_TYPE @
           be_bytes 8 ts @ be_bytes 8 (int i))"
    by (simp add: pack_payload_header)
  from Cons.prems have s: "sendto i = None" by simp
  from Cons.prems have "\<forall>i \<in> set segs. in_range 8 (int i)" "\<forall>i \<in> set segs. sendto i = None"
    by simp_all
  note IH = Cons.IH [OF Cons.prems(1) this]
  show ?case
    by (simp add: p s IH BUFFER_SIZE_def Let_def del: be_bytes.simps)
qed

lemma udp_send_loop_stops:
  assumes "in_range 8 ts" "\<forall>i \<in> set pre. in_range 8 (int i)" "in_range 8 (int k)"
    and "\<forall>i \<in> set pre. sendto i = None" "sendto k = Some e"
  shows "udp_send_loop ts (pre @ k # post) sendto out n =
    \<lparr>sent = out @ map (\<lambda>i. be_bytes 4 MAGIC_COOKIE @ be_bytes 1 PAYLOAD_MESSAGE_TYPE @
                            be_bytes 8 ts @ be_bytes 8 (int i) @ replicate 1003 filler_X) pre,
     bytes_sent = n + 1024 * int (length pre), raised = Some e, printed_speed = None\<rparr>"
  using assms
proof (induction pre arbitrary: out n)
  case Nil
  then show ?case
    by (simp add: pack_payload_header Let_def del: be_bytes.simps)
next
  case (Cons i pre)
  from Cons.prems have p: "pack_IBQQ MAGIC_COOKIE PAYLOAD_MESSAGE_TYPE ts (int i) =
      Inr (be_bytes 4 MAGIC_COOKIE @ be_bytes 1 PAYLOAD_MESSAGE_TYPE @
           be_bytes 8 ts @ be_bytes 8 (int i))"
    by (simp add: pack_payload_header)
  from Cons.prems have s: "sendto i = None" by simp
  from Cons.prems have "\<forall>i \<in> set pre. in_range 8 (int i)" "in_range 8 (int k)"
    "\<forall>i \<in> set pre. sendto i = None" "sendto k = Some e"
    by simp_all
  note IH = Cons.IH [OF Cons.prems(1) this]
  show ?case
    by (simp add: p s IH BUFFER_SIZE_def Let_def del: be_bytes.simps)
qed


lemma dispatch_request:
  assumes "in_range 8 S"
  shows "\<exists>request. pack_IBQ MAGIC_COOKIE REQUEST_MESSAGE_TYPE S = Inr request \<and>
           udp_server_dispatch request = Some S"
proof -
  have "in_range 1 REQUEST_MESSAGE_TYPE"
    by (simp add: in_range_def REQUEST_MESSAGE_TYPE_def)
  with assms magic_in_range obtain request where
    r: "pack_IBQ MAGIC_COOKIE REQUEST_MESSAGE_TYPE S = Inr request"
    by (simp add: pack_IBQ_def)
  from unpack_pack_IBQ [OF r] have "udp_server_dispatch request = Some S"
    by (simp add: udp_server_dispatch_def recvfrom_def BUFFER_SIZE_def)
  with r show ?thesis by blast
qed

lemma div_in_range: "in_range 8 S \<Longrightarrow> in_range 8 (S div 1024)"
  unfolding in_range_def by (auto simp: pos_imp_zdiv_nonneg_iff div_less_iff_less_mult)


section \<open>The server's unreliable handler\<close>

text \<open>
  What the handler does when its socket opens and the first \<open>k\<close> calls of \<open>sendto\<close>
  return, for a size in the range of the request's field.
\<close>

lemma handle_udp_client_all_sent:
  assumes "in_range 8 S" "\<forall>i < nat (S div 1024). sendto i = None"
  shows "handle_udp_client S None sendto start_time end_time =
    \<lparr>sent = map (\<lambda>i. be_bytes 4 MAGIC_COOKIE @ be_bytes 1 PAYLOAD_MESSAGE_TYPE @
                       be_bytes 8 (S div 1024) @ be_bytes 8 (int i) @ replicate 1003 filler_X)
                  [0 ..< nat (S div 1024)],
     bytes_sent = 1024 * (S div 1024),
     raised = (if end_time - start_time = 0 then Some ZeroDivisionError else None),
     printed_speed =
       (if end_time - start_time = 0 then None
        else Some ((real_of_int (1024 * (S div 1024)) / (end_time - start_time)) * 8))\<rparr>"
proof -
  from assms(1) have n: "in_range 8 (S div 1024)" by (rule div_in_range)
  then have idx: "\<forall>i \<in> set [0 ..< nat (S div 1024)]. in_range 8 (int i)"
    by (auto simp: in_range_def)
  from assms(2) have ok: "\<forall>i \<in> set [0 ..< nat (S div 1024)]. sendto i = None"
    by simp
  from n have nn: "0 \<le> S div 1024" by (simp add: in_range_def)
  show ?thesis
    using udp_send_loop_all [OF n idx ok, of "[]" 0] nn
    by (simp add: handle_udp_client_def BUFFER_SIZE_def Let_def del: be_bytes.simps)
qed

text \<open>
  A \<open>sendto\<close> that raises ends the loop: only the segments before it have been sent, and
  the handler ends in its \<open>except\<close> branch. So does a socket that cannot be opened, with
  nothing sent.
\<close>

lemma handle_udp_client_send_failure:
  assumes "in_range 8 S" "k < nat (S div 1024)" "\<forall>i < k. sendto i = None" "sendto k = Some e"
  shows "handle_udp_client S None sendto start_time end_time =
    \<lparr>sent = map (\<lambda>i. be_bytes 4 MAGIC_COOKIE @ be_bytes 1 PAYLOAD_MESSAGE_TYPE @
                       be_bytes 8 (S div 1024) @ be_bytes 8 (int i) @ replicate 1003 filler_X)
                  [0 ..< k],
     bytes_sent = 1024 * int k, raised = Some e, printed_speed = None\<rparr>"
proof -
  from assms(1) have n: "in_range 8 (S div 1024)" by (rule div_in_range)
  with assms(2) have idx: "\<forall>i \<in> set [0 ..< k]. in_range 8 (int i)" and k: "in_range 8 (int k)"
    by (auto simp: in_range_def)
  from assms(3) have ok: "\<forall>i \<in> set [0 ..< k]. sendto i = None"
    by simp
  from assms(2) have "[0 ..< nat (S div 1024)] = [0 ..< k] @ [k ..< nat (S div 1024)]"
    using upt_add_eq_append [of 0 k "nat (S div 1024) - k"] by simp
  also from assms(2) have "[k ..< nat (S div 1024)] = k # [Suc k ..< nat (S div 1024)]"
    by (rule upt_conv_Cons)
  finally have parts: "[0 ..< nat (S div 1024)] = [0 ..< k] @ k # [Suc k ..< nat (S div 1024)]" .
  show ?thesis
    using udp_send_loop_stops [OF n idx k ok assms(4), of "[Suc k ..< nat (S div 1024)]" "[]" 0]
    by (simp add: handle_udp_client_def BUFFER_SIZE_def Let_def parts del: be_bytes.simps)
qed

lemma handle_udp_client_socket_failure:
  "handle_udp_client S (Some e) sendto start_time end_time =
     \<lparr>sent = [], bytes_sent = 0, raised = Some e, printed_speed = None\<rparr>"
  by (simp add: handle_udp_client_def)



section \<open>The reliable client's receive loop\<close>

lemma tcp_loop_exit:
  "\<not> received < S \<Longrightarrow> tcp_recv_loop recv S k received = Some (Inr received)"
  by (subst tcp_recv_loop.simps) simp

lemma tcp_loop_read:
  "received < S \<Longrightarrow> recv k = Inr data \<Longrightarrow>
   tcp_recv_loop recv S k received =
     tcp_recv_loop recv S (Suc k) (received + int (length data))"
  by (subst tcp_recv_loop.simps) simp

lemma tcp_loop_raise:
  "received < S \<Longrightarrow> recv k = Inl e \<Longrightarrow> tcp_recv_loop recv S k received = Some (Inl e)"
  by (subst tcp_recv_loop.simps) simp

lemma tcp_loop_result:
  assumes "tcp_recv_loop recv S k received = Some y"
  shows "(\<forall>v. y = Inr v \<longrightarrow>
            S \<le> v \<and> (\<exists>m\<ge>k. v = received + (delivered recv m - delivered recv k))) \<and>
         (\<forall>e. y = Inl e \<longrightarrow> (\<exists>j\<ge>k. recv j = Inl e))"
proof (rule tcp_recv_loop.raw_induct [OF _ assms])
  fix loop :: "(nat \<Rightarrow> py_error + bytes) \<Rightarrow> int \<Rightarrow> nat \<Rightarrow> int \<Rightarrow> (py_error + int) option"
  fix recv S k received y
  assume IH: "\<And>r s j a y. loop r s j a = Some y \<Longrightarrow>
      (\<forall>v. y = Inr v \<longrightarrow>
         s \<le> v \<and> (\<exists>m\<ge>j. v = a + (delivered r m - delivered r j))) \<and>
      (\<forall>e. y = Inl e \<longrightarrow> (\<exists>i\<ge>j. r i = Inl e))"
  assume eq: "(if received < S
      then case recv k of Inl e \<Rightarrow> Some (Inl e)
           | Inr data \<Rightarrow> loop recv S (Suc k) (received + int (length data))
      else Some (Inr received)) = Some y"
  show "(\<forall>v. y = Inr v \<longrightarrow>
            S \<le> v \<and> (\<exists>m\<ge>k. v = received + (delivered recv m - delivered recv k))) \<and>
         (\<forall>e. y = Inl e \<longrightarrow> (\<exists>j\<ge>k. recv j = Inl e))"
  proof (cases "received < S")
    case False
    with eq have "y = Inr received" by simp
    moreover have "received = received + (delivered recv k - delivered recv k)" by simp
    ultimately show ?thesis using False by (metis Inl_Inr_False le_refl not_less sum.inject(2))
  next
    case True
    show ?thesis
    proof (cases "recv k")
      case (Inl e)
      with True eq have "y = Inl e" by simp
      with Inl show ?thesis by auto
    next
      case (Inr data)
      with True eq
      have "loop recv S (Suc k) (received + int (length data)) = Some y" by simp
      note ih = IH [OF this]
      have d: "delivered recv (Suc k) = delivered recv k + int (length data)"
        using Inr by simp
      show ?thesis
      proof (intro conjI allI impI)
        fix v assume "y = Inr v"
        with ih have "S \<le> v" and
          "\<exists>m\<ge>Suc k. v = received + int (length data) + (delivered recv m - delivered recv (Suc k))"
          by auto
        then obtain m where "Suc k \<le> m"
          "v = received + int (length data) + (delivered recv m - delivered recv (Suc k))"
          by blast
        with d have "k \<le> m" "v = received + (delivered recv m - delivered recv k)"
          by simp_all
        then show "\<exists>m\<ge>k. v = received + (delivered recv m - delivered recv k)" by blast
        show "S \<le> v" by fact
      next
        fix e assume "y = Inl e"
        with ih obtain j where "Suc k \<le> j" "recv j = Inl e" by blast
        then have "k \<le> j" by simp
        with \<open>recv j = Inl e\<close> show "\<exists>j\<ge>k. recv j = Inl e" by blast
      qed
    qed
  qed
qed

lemma tcp_loop_completes:
  assumes "\<forall>j<n. \<exists>d. recv (k + j) = Inr d"
    and "S \<le> received + (delivered recv (k + n) - delivered recv k)"
  shows "\<exists>v. tcp_recv_loop recv S k received = Some (Inr v) \<and> S \<le> v"
  using assms
proof (induction n arbitrary: k received)
  case 0
  then show ?case by (simp add: tcp_loop_exit)
next
  case (Suc n)
  show ?case
  proof (cases "received < S")
    case False
    then show ?thesis by (simp add: tcp_loop_exit)
  next
    case True
    from Suc.prems(1) obtain d where d: "recv k = Inr d" by force
    have "\<forall>j<n. \<exists>d. recv (Suc k + j) = Inr d"
    proof (intro allI impI)
      fix j assume "j < n"
      then have "Suc j < Suc n" by simp
      with Suc.prems(1) have "\<exists>d. recv (k + Suc j) = Inr d" by blast
      then show "\<exists>d. recv (Suc k + j) = Inr d" by simp
    qed
    moreover from Suc.prems(2) d
    have "S \<le> received + int (length d) +
        (delivered recv (Suc k + n) - delivered recv (Suc k))"
      by simp
    ultimately have "\<exists>v. tcp_recv_loop recv S (Suc k) (received + int (length d)) =
        Some (Inr v) \<and> S \<le> v"
      by (rule Suc.IH)
    with True d show ?thesis by (simp add: tcp_loop_read)
  qed
qed

lemma delivered_closing_stream:
  "delivered (closing_stream chunks) m = sum_list (map (int \<circ> length) (take m chunks))"
proof (induction m)
  case 0
  show ?case by simp
next
  case (Suc m)
  show ?case
  proof (cases "m < length chunks")
    case True
    then show ?thesis
      using Suc by (simp add: closing_stream_def take_Suc_conv_app_nth)
  next
    case False
    then show ?thesis
      using Suc by (simp add: closing_stream_def)
  qed
qed

lemma delivered_closing_stream_le:
  "delivered (closing_stream chunks) m \<le> sum_list (map (int \<circ> length) chunks)"
proof -
  have "sum_list (map (int \<circ> length) chunks) =
      sum_list (map (int \<circ> length) (take m chunks)) +
      sum_list (map (int \<circ> length) (drop m chunks))"
    by (metis append_take_drop_id map_append sum_list_append)
  moreover have "0 \<le> sum_list (map (int \<circ> length) (drop m chunks))"
    by (rule sum_list_nonneg) auto
  ultimately show ?thesis by (simp add: delivered_closing_stream)
qed

lemma tcp_loop_starved:
  assumes "sum_list (map (int \<circ> length) chunks) < S"
  shows "tcp_recv_loop (closing_stream chunks) S 0 0 = None"
proof (cases "tcp_recv_loop (closing_stream chunks) S 0 0")
  case None
  then show ?thesis .
next
  case (Some y)
  note r = tcp_loop_result [OF Some]
  show ?thesis
  proof (cases y)
    case (Inl e)
    with r obtain j where "closing_stream chunks j = Inl e" by blast
    then show ?thesis by (simp add: closing_stream_def split: if_splits)
  next
    case (Inr v)
    with r obtain m where "S \<le> v" "v = delivered (closing_stream chunks) m"
      by auto
    with delivered_closing_stream_le [of chunks m] assms show ?thesis by simp
  qed
qed

lemma tcp_loop_normal_end:
  assumes "tcp_recv_loop recv S k received = Some y"
  shows "\<forall>v. y = Inr v \<longrightarrow>
           (\<exists>n. (\<forall>j<n. \<exists>d. recv (k + j) = Inr d) \<and>
                (\<forall>j<n. received + (delivered recv (k + j) - delivered recv k) < S) \<and>
                v = received + (delivered recv (k + n) - delivered recv k) \<and> S \<le> v)"
proof (rule tcp_recv_loop.raw_induct [OF _ assms])
  fix loop :: "(nat \<Rightarrow> py_error + bytes) \<Rightarrow> int \<Rightarrow> nat \<Rightarrow> int \<Rightarrow> (py_error + int) option"
  fix recv S k received y
  assume IH: "\<And>r s i a y. loop r s i a = Some y \<Longrightarrow>
      \<forall>v. y = Inr v \<longrightarrow>
        (\<exists>n. (\<forall>j<n. \<exists>d. r (i + j) = Inr d) \<and>
             (\<forall>j<n. a + (delivered r (i + j) - delivered r i) < s) \<and>
             v = a + (delivered r (i + n) - delivered r i) \<and> s \<le> v)"
  assume eq: "(if received < S
      then case recv k of Inl e \<Rightarrow> Some (Inl e)
           | Inr data \<Rightarrow> loop recv S (Suc k) (received + int (length data))
      else Some (Inr received)) = Some y"
  show "\<forall>v. y = Inr v \<longrightarrow>
           (\<exists>n. (\<forall>j<n. \<exists>d. recv (k + j) = Inr d) \<and>
                (\<forall>j<n. received + (delivered recv (k + j) - delivered recv k) < S) \<and>
                v = received + (delivered recv (k + n) - delivered recv k) \<and> S \<le> v)"
  proof (intro allI impI)
    fix v assume y: "y = Inr v"
    let ?P = "\<lambda>n. (\<forall>j<n. \<exists>d. recv (k + j) = Inr d) \<and>
                (\<forall>j<n. received + (delivered recv (k + j) - delivered recv k) < S) \<and>
                v = received + (delivered recv (k + n) - delivered recv k) \<and> S \<le> v"
    show "\<exists>n. ?P n"
    proof (cases "received < S")
      case False
      with eq y have "v = received" by simp
      with False have "?P 0" by simp
      then show ?thesis ..
    next
      case True
      show ?thesis
      proof (cases "recv k")
        case (Inl e)
        with True eq y show ?thesis by simp
      next
        case (Inr data)
        with True eq
        have "loop recv S (Suc k) (received + int (length data)) = Some y" by simp
        from IH [OF this] y obtain n where
          r: "\<forall>j<n. \<exists>d. recv (Suc k + j) = Inr d"
          and b: "\<forall>j<n. received + int (length data) +
                    (delivered recv (Suc k + j) - delivered recv (Suc k)) < S"
          and v: "v = received + int (length data) +
                    (delivered recv (Suc k + n) - delivered recv (Suc k))"
          and le: "S \<le> v"
          by blast
        have d: "delivered recv (Suc k) = delivered recv k + int (length data)"
          using Inr by simp
        have "\<exists>d. recv (k + j) = Inr d" if "j < Suc n" for j
        proof (cases j)
          case 0
          with Inr show ?thesis by simp
        next
          case (Suc i)
          with that r show ?thesis by simp
        qed
        moreover have "received + (delivered recv (k + j) - delivered recv k) < S"
          if "j < Suc n" for j
        proof (cases j)
          case 0
          with True show ?thesis by simp
        next
          case (Suc i)
          with that have "i < n" by simp
          with b have "received + int (length data) +
              (delivered recv (Suc k + i) - delivered recv (Suc k)) < S" by blast
          with d Suc show ?thesis by simp
        qed
        moreover from v d
        have "v = received + (delivered recv (k + Suc n) - delivered recv k)" by simp
        ultimately have "?P (Suc n)" using le by blast
        then show ?thesis ..
      qed
    qed
  qed
qed

lemma tcp_loop_exact:
  assumes "\<forall>j<n. \<exists>d. recv (k + j) = Inr d"
    and "\<forall>j<n. received + (delivered recv (k + j) - delivered recv k) < S"
    and "S \<le> received + (delivered recv (k + n) - delivered recv k)"
  shows "tcp_recv_loop recv S k received =
           Some (Inr (received + (delivered recv (k + n) - delivered recv k)))"
  using assms
proof (induction n arbitrary: k received)
  case 0
  then show ?case by (simp add: tcp_loop_exit)
next
  case (Suc n)
  from Suc.prems(2) have lt: "received < S" by force
  from Suc.prems(1) obtain d where d: "recv k = Inr d" by force
  then have dk: "delivered recv (Suc k) = delivered recv k + int (length d)" by simp
  have "\<forall>j<n. \<exists>d. recv (Suc k + j) = Inr d"
  proof (intro allI impI)
    fix j assume "j < n"
    then have "Suc j < Suc n" by simp
    with Suc.prems(1) have "\<exists>d. recv (k + Suc j) = Inr d" by blast
    then show "\<exists>d. recv (Suc k + j) = Inr d" by simp
  qed
  moreover have "\<forall>j<n. received + int (length d) +
      (delivered recv (Suc k + j) - delivered recv (Suc k)) < S"
  proof (intro allI impI)
    fix j assume "j < n"
    then have "Suc j < Suc n" by simp
    with Suc.prems(2)
    have "received + (delivered recv (k + Suc j) - delivered recv k) < S" by blast
    with dk show "received + int (length d) +
      (delivered recv (Suc k + j) - delivered recv (Suc k)) < S" by simp
  qed
  moreover from Suc.prems(3) dk
  have "S \<le> received + int (length d) +
      (delivered recv (Suc k + n) - delivered recv (Suc k))"
    by simp
  ultimately have "tcp_recv_loop recv S (Suc k) (received + int (length d)) =
      Some (Inr (received + int (length d) +
                 (delivered recv (Suc k + n) - delivered recv (Suc k))))"
    by (rule Suc.IH)
  with lt d dk show ?case by (simp add: tcp_loop_read)
qed

lemma tcp_loop_first_reach:
  assumes "\<forall>j<n. \<exists>d. recv j = Inr d" and "S \<le> delivered recv n"
  shows "\<exists>m\<le>n. tcp_recv_loop recv S 0 0 = Some (Inr (delivered recv m)) \<and>
           S \<le> delivered recv m \<and> (\<forall>j<m. delivered recv j < S)"
proof -
  define m where "m = (LEAST i. S \<le> delivered recv i)"
  from assms(2) have mn: "m \<le> n" and reach: "S \<le> delivered recv m"
    unfolding m_def by (rule Least_le, rule LeastI)
  have below: "\<forall>j<m. delivered recv j < S"
  proof (intro allI impI)
    fix j assume "j < m"
    then have "\<not> S \<le> delivered recv j"
      unfolding m_def by (rule not_less_Least)
    then show "delivered recv j < S" by simp
  qed
  from assms(1) mn have "\<forall>j<m. \<exists>d. recv (0 + j) = Inr d" by simp
  moreover from below have "\<forall>j<m. 0 + (delivered recv (0 + j) - delivered recv 0) < S"
    by simp
  moreover from reach have "S \<le> 0 + (delivered recv (0 + m) - delivered recv 0)"
    by simp
  ultimately have "tcp_recv_loop recv S 0 0 =
      Some (Inr (0 + (delivered recv (0 + m) - delivered recv 0)))"
    by (rule tcp_loop_exact)
  then have "tcp_recv_loop recv S 0 0 = Some (Inr (delivered recv m))" by simp
  with mn reach below show ?thesis by blast
qed

text \<open>
  Claim C8. Whenever the reliable client's receive loop ends normally, the byte count it
  has accumulated is at least the requested size, and it is the number of bytes actually
  read: the total length of the first \<open>n\<close> reads, none of which raised, where \<open>n\<close> is the
  first number of reads whose total reaches the requested size. The loop does end
  normally, with that count, as soon as the first reads, none of which raises, carry at
  least the requested size; and for a request of 0 bytes it ends at once with 0 bytes,
  without reading.
\<close>

theorem tcp_received_at_least_requested:
  "(tcp_recv_loop recv S 0 0 = Some (Inr received) \<longrightarrow>
      S \<le> received \<and>
      (\<exists>n. received = delivered recv n \<and> (\<forall>j<n. \<exists>d. recv j = Inr d) \<and>
           (\<forall>j<n. delivered recv j < S))) \<and>
   ((\<forall>j<n. \<exists>d. recv j = Inr d) \<and> S \<le> delivered recv n \<longrightarrow>
      (\<exists>m\<le>n. tcp_recv_loop recv S 0 0 = Some (Inr (delivered recv m)) \<and>
              S \<le> delivered recv m \<and> (\<forall>j<m. delivered recv j < S))) \<and>
   (S \<le> 0 \<longrightarrow> tcp_recv_loop recv S 0 0 = Some (Inr 0)) \<and>
   tcp_recv_loop recv 0 0 0 = Some (Inr 0)"
proof (intro conjI impI)
  assume a: "tcp_recv_loop recv S 0 0 = Some (Inr received)"
  from tcp_loop_normal_end [OF a] obtain n where
    "\<forall>j<n. \<exists>d. recv (0 + j) = Inr d"
    "\<forall>j<n. 0 + (delivered recv (0 + j) - delivered recv 0) < S"
    "received = 0 + (delivered recv (0 + n) - delivered recv 0)" "S \<le> received"
    by blast
  then have "received = delivered recv n \<and> (\<forall>j<n. \<exists>d. recv j = Inr d) \<and>
           (\<forall>j<n. delivered recv j < S)"
    by simp
  then show "\<exists>n. received = delivered recv n \<and> (\<forall>j<n. \<exists>d. recv j = Inr d) \<and>
           (\<forall>j<n. delivered recv j < S)" ..
  show "S \<le> received" by fact
next
  assume "(\<forall>j<n. \<exists>d. recv j = Inr d) \<and> S \<le> delivered recv n"
  then show "\<exists>m\<le>n. tcp_recv_loop recv S 0 0 = Some (Inr (delivered recv m)) \<and>
              S \<le> delivered recv m \<and> (\<forall>j<m. delivered recv j < S)"
    by (simp add: tcp_loop_first_reach)
next
  assume "S \<le> 0"
  then show "tcp_recv_loop recv S 0 0 = Some (Inr 0)"
    by (simp add: tcp_loop_exit)
next
  show "tcp_recv_loop recv 0 0 0 = Some (Inr 0)"
    by (simp add: tcp_loop_exit)
qed

theorem tcp_received_at_least_requested_witness:
  "tcp_recv_loop (closing_stream [replicate 1000 filler_X, replicate 1024 filler_X]) 1500 0 0
     = Some (Inr 2024) \<and> (1500::int) \<le> 2024 \<and>
   (\<exists>n. 2024 = delivered (closing_stream [replicate 1000 filler_X, replicate 1024 filler_X]) n \<and>
        (\<forall>j<n. \<exists>d. closing_stream [replicate 1000 filler_X, replicate 1024 filler_X] j = Inr d) \<and>
        (\<forall>j<n. delivered (closing_stream [replicate 1000 filler_X, replicate 1024 filler_X]) j
                  < 1500)) \<and>
   delivered (closing_stream [replicate 1000 filler_X, replicate 1024 filler_X]) 1 = 1000 \<and>
   delivered (closing_stream [replicate 1000 filler_X, replicate 1024 filler_X]) 2 = 2024 \<and>
   tcp_recv_loop (closing_stream [replicate 1000 filler_X, replicate 1024 filler_X]) 0 0 0
     = Some (Inr 0)"
proof -
  let ?cs = "closing_stream [replicate 1000 filler_X, replicate 1024 filler_X]"
  have e: "tcp_recv_loop ?cs 1500 0 0 = Some (Inr 2024)"
    by (simp add: tcp_recv_loop.simps closing_stream_def)
  have d: "delivered ?cs 1 = 1000" "delivered ?cs 2 = 2024"
    by (simp_all add: closing_stream_def eval_nat_numeral)
  note t = tcp_received_at_least_requested [of ?cs 1500 2024 2]
  from t e have "\<exists>n. 2024 = delivered ?cs n \<and> (\<forall>j<n. \<exists>d. ?cs j = Inr d) \<and>
        (\<forall>j<n. delivered ?cs j < 1500)"
    by blast
  moreover from t have "tcp_recv_loop ?cs 0 0 0 = Some (Inr 0)" by blast
  ultimately show ?thesis using e d by simp
qed

text \<open>
  Claim C9. Each read adds its length to the counter and the loop goes on while the
  counter is below the requested size; a read of length 0 leaves the counter as it was;
  the loop ends normally only with a counter that has reached the requested size. So on a
  connection that delivers fewer bytes than requested and is then closed by the peer the
  loop never ends, and a normal end needs the reads to supply at least the requested size
  in total.
\<close>

theorem tcp_loop_needs_requested_bytes:
  "(received < S \<and> recv k = Inr data \<longrightarrow>
      tcp_recv_loop recv S k received =
        tcp_recv_loop recv S (Suc k) (received + int (length data))) \<and>
   (received < S \<and> recv k = Inr [] \<longrightarrow>
      tcp_recv_loop recv S k received = tcp_recv_loop recv S (Suc k) received) \<and>
   (\<not> received < S \<longrightarrow> tcp_recv_loop recv S k received = Some (Inr received)) \<and>
   (0 < S \<and> sum_list (map (int \<circ> length) chunks) < S \<longrightarrow>
      tcp_recv_loop (closing_stream chunks) S 0 0 = None) \<and>
   (tcp_recv_loop recv S 0 0 = Some (Inr final) \<longrightarrow>
      (\<exists>n. final = delivered recv n \<and> S \<le> delivered recv n))"
proof (intro conjI impI)
  assume "received < S \<and> recv k = Inr data"
  then show "tcp_recv_loop recv S k received =
      tcp_recv_loop recv S (Suc k) (received + int (length data))"
    by (simp add: tcp_loop_read)
next
  assume "received < S \<and> recv k = Inr []"
  then show "tcp_recv_loop recv S k received = tcp_recv_loop recv S (Suc k) received"
    using tcp_loop_read [of received S recv k "[]"] by simp
next
  assume "\<not> received < S"
  then show "tcp_recv_loop recv S k received = Some (Inr received)"
    by (rule tcp_loop_exit)
next
  assume "0 < S \<and> sum_list (map (int \<circ> length) chunks) < S"
  then show "tcp_recv_loop (closing_stream chunks) S 0 0 = None"
    by (simp add: tcp_loop_starved)
next
  assume "tcp_recv_loop recv S 0 0 = Some (Inr final)"
  from tcp_loop_result [OF this] show "\<exists>n. final = delivered recv n \<and> S \<le> delivered recv n"
    by auto
qed

theorem tcp_loop_needs_requested_bytes_witness:
  "(0::int) < 1024 \<and>
   closing_stream [replicate 1000 filler_X] 1 = Inr [] \<and>
   tcp_recv_loop (closing_stream [replicate 1000 filler_X]) 1024 1 1000 =
     tcp_recv_loop (closing_stream [replicate 1000 filler_X]) 1024 2 1000 \<and>
   sum_list (map (int \<circ> length) [replicate 1000 filler_X]) < 1024 \<and>
   tcp_recv_loop (closing_stream [replicate 1000 filler_X]) 1024 0 0 = None \<and>
   tcp_recv_loop (closing_stream [replicate 1000 filler_X]) 1000 0 0 = Some (Inr 1000) \<and>
   (\<exists>n. (1000::int) = delivered (closing_stream [replicate 1000 filler_X]) n \<and>
        1000 \<le> delivered (closing_stream [replicate 1000 filler_X]) n)"
proof -
  note a = tcp_loop_needs_requested_bytes
    [of 1000 1024 "closing_stream [replicate 1000 filler_X]" 1 "[]"
        "[replicate 1000 filler_X]" 1000]
  note b = tcp_loop_needs_requested_bytes
    [of 0 1000 "closing_stream [replicate 1000 filler_X]" 0 "replicate 1000 filler_X"
        "[]" 1000]
  have c: "closing_stream [replicate 1000 filler_X] 1 = Inr []"
    by (simp add: closing_stream_def)
  have e: "tcp_recv_loop (closing_stream [replicate 1000 filler_X]) 1000 0 0
      = Some (Inr 1000)"
    by (simp add: tcp_recv_loop.simps closing_stream_def)
  from a b c e show ?thesis by (simp add: numeral_2_eq_2)
qed

section \<open>The unreliable client's accounting\<close>

lemma full_segment:
  "sent (handle_udp_client 1024 None (\<lambda>i. None) 0 1) =
     [be_bytes 4 MAGIC_COOKIE @ be_bytes 1 PAYLOAD_MESSAGE_TYPE @ be_bytes 8 1 @ be_bytes 8 0 @
      replicate 1003 filler_X]"
proof -
  have "in_range 8 1024" by (simp add: in_range_def)
  moreover have "\<forall>i < nat (1024 div 1024). (\<lambda>i. None :: py_error option) i = None" by simp
  ultimately show ?thesis
    by (simp add: handle_udp_client_all_sent del: be_bytes.simps)
qed


text \<open>
  Claim C3. A datagram of at least 20 bytes (after \<open>recvfrom\<close> has cut it to the buffer
  size) adds one to the segment counter and its length minus 20 to the byte accumulator;
  a shorter one changes nothing. The number subtracted, and the least length accepted, is
  20 and not the 21 bytes of the payload header.
\<close>

theorem udp_recv_loop_subtracts_20:
  "(20 \<le> length (recvfrom BUFFER_SIZE d) \<longrightarrow>
      udp_recv_loop (Arrival d # evs) n t =
        udp_recv_loop evs (n + 1) (t + (int (length (recvfrom BUFFER_SIZE d)) - 20))) \<and>
   (length (recvfrom BUFFER_SIZE d) < 20 \<longrightarrow>
      udp_recv_loop (Arrival d # evs) n t = udp_recv_loop evs n t)"
  by (simp add: Let_def)

theorem udp_recv_loop_subtracts_20_witness:
  "(\<exists>header. pack_IBQQ MAGIC_COOKIE PAYLOAD_MESSAGE_TYPE 1 0 = Inr header \<and>
       length header = 21) \<and>
   length (sent (handle_udp_client 1024 None (\<lambda>i. None) 0 1) ! 0) = 1024 \<and>
   udp_recv_loop [Arrival (sent (handle_udp_client 1024 None (\<lambda>i. None) 0 1) ! 0)] 0 0
     = Inr (1, 1004) \<and>
   (1004::int) \<noteq> 1024 - 21 \<and>
   udp_recv_loop [Arrival (replicate 20 filler_X)] 0 0 = Inr (1, 0)"
proof -
  let ?seg = "sent (handle_udp_client 1024 None (\<lambda>i. None) 0 1) ! 0"
  have h: "\<exists>header. pack_IBQQ MAGIC_COOKIE PAYLOAD_MESSAGE_TYPE 1 0 = Inr header \<and>
       length header = 21"
    using pack_payload_header [of 1 0] by (simp add: in_range_def del: be_bytes.simps)
  have l: "length ?seg = 1024"
    by (simp add: full_segment del: be_bytes.simps)
  then have r: "length (recvfrom BUFFER_SIZE ?seg) = 1024"
    by (simp add: recvfrom_def BUFFER_SIZE_def)
  have r20: "length (recvfrom BUFFER_SIZE (replicate 20 filler_X)) = 20"
    by (simp add: recvfrom_def BUFFER_SIZE_def)
  from udp_recv_loop_subtracts_20 [of ?seg "[]" 0 0] r
  have a: "udp_recv_loop [Arrival ?seg] 0 0 = Inr (1, 1004)"
    by simp
  from udp_recv_loop_subtracts_20 [of "replicate 20 filler_X" "[]" 0 0] r20
  have b: "udp_recv_loop [Arrival (replicate 20 filler_X)] 0 0 = Inr (1, 0)"
    by simp
  from h l a b show ?thesis by simp
qed

text \<open>
  Claim C7. The payload loop looks at the length of a datagram and at nothing else: two
  datagrams of the same length are counted alike, whatever their magic and type. A
  datagram of the right length whose magic is not \<open>0xabcddcba\<close> and whose type is not
  the payload type is counted as a segment and adds to the byte accumulator, exactly as a
  segment of the server does.
\<close>

theorem udp_recv_loop_ignores_magic_and_type:
  "length d = length d' \<longrightarrow>
     udp_recv_loop (Arrival d # evs) n t = udp_recv_loop (Arrival d' # evs) n t"
  by (simp add: recvfrom_def Let_def)

theorem udp_recv_loop_ignores_magic_and_type_witness:
  "be_int (take 4 (replicate 1024 0 :: bytes)) \<noteq> MAGIC_COOKIE \<and>
   be_int (take 1 (drop 4 (replicate 1024 0 :: bytes))) \<noteq> PAYLOAD_MESSAGE_TYPE \<and>
   udp_recv_loop [Arrival (replicate 1024 0)] 0 0 = Inr (1, 1004) \<and>
   udp_recv_loop [Arrival (replicate 1024 0)] 0 0 =
     udp_recv_loop [Arrival (sent (handle_udp_client 1024 None (\<lambda>i. None) 0 1) ! 0)] 0 0"
proof -
  let ?seg = "sent (handle_udp_client 1024 None (\<lambda>i. None) 0 1) ! 0"
  have l: "length (replicate 1024 (0 :: byte)) = length ?seg"
    by (simp add: full_segment del: be_bytes.simps)
  have m: "be_int (take 4 (replicate 1024 0 :: bytes)) \<noteq> MAGIC_COOKIE"
    "be_int (take 1 (drop 4 (replicate 1024 0 :: bytes))) \<noteq> PAYLOAD_MESSAGE_TYPE"
    by (simp_all add: be_int_def MAGIC_COOKIE_def PAYLOAD_MESSAGE_TYPE_def eval_nat_numeral)
  have e: "udp_recv_loop [Arrival (replicate 1024 0)] 0 0 = Inr (1, 1004)"
    by (simp add: recvfrom_def BUFFER_SIZE_def Let_def)
  from udp_recv_loop_ignores_magic_and_type [of "replicate 1024 0" ?seg "[]" 0 0] l m e
  show ?thesis by simp
qed





section \<open>The reliable client's throughput\<close>

lemma delivered_nonneg: "0 \<le> delivered recv n"
  by (induction n) (simp_all split: sum.split)

text \<open>
  Claim C4. When the receive loop has ended normally, the speed is computed by a division
  that nothing guards: with two equal readings of the clock the division raises
  \<open>ZeroDivisionError\<close>, which the function's handler reports as an error of the transfer,
  and no speed is reported. With a later second reading the speed is the bytes received
  over the elapsed time, times 8, and is not negative.
\<close>

theorem tcp_transfer_division_unguarded:
  "tcp_recv_loop recv S 0 0 = Some (Inr received) \<longrightarrow>
     (end_time = start_time \<longrightarrow>
        tcp_transfer None recv S start_time end_time = Some (Inl ZeroDivisionError)) \<and>
     (start_time < end_time \<longrightarrow>
        tcp_transfer None recv S start_time end_time =
          Some (Inr (real_of_int received / (end_time - start_time) * 8)) \<and>
        0 \<le> real_of_int received / (end_time - start_time) * 8)"
proof (intro impI conjI)
  assume a: "tcp_recv_loop recv S 0 0 = Some (Inr received)"
  show "tcp_transfer None recv S start_time end_time = Some (Inl ZeroDivisionError)"
    if "end_time = start_time"
    using a that by (simp add: tcp_transfer_def)
  show "tcp_transfer None recv S start_time end_time =
          Some (Inr (real_of_int received / (end_time - start_time) * 8))"
    if "start_time < end_time"
    using a that by (simp add: tcp_transfer_def)
  from tcp_loop_result [OF a] obtain m where "received = delivered recv m" by auto
  then have "0 \<le> received" by (simp add: delivered_nonneg)
  then show "0 \<le> real_of_int received / (end_time - start_time) * 8"
    if "start_time < end_time"
    using that by simp
qed

theorem tcp_transfer_division_unguarded_witness:
  "tcp_recv_loop (closing_stream [replicate 1024 filler_X]) 1024 0 0 = Some (Inr 1024) \<and>
   tcp_transfer None (closing_stream [replicate 1024 filler_X]) 1024 5 5
     = Some (Inl ZeroDivisionError) \<and>
   tcp_transfer None (closing_stream [replicate 1024 filler_X]) 1024 5 7 = Some (Inr 4096)"
proof -
  have e: "tcp_recv_loop (closing_stream [replicate 1024 filler_X]) 1024 0 0 = Some (Inr 1024)"
    by (simp add: tcp_recv_loop.simps closing_stream_def)
  from tcp_transfer_division_unguarded
         [of "closing_stream [replicate 1024 filler_X]" 1024 1024 5 5]
       tcp_transfer_division_unguarded
         [of "closing_stream [replicate 1024 filler_X]" 1024 1024 7 5] e
  show ?thesis by simp
qed

section \<open>The server's sockets\<close>

text \<open>
  Claim C10. The reliable accept socket and the unreliable request socket are each bound
  once, to the literal host \<open>172.20.10.3\<close> with the port of their transport. The host is
  neither the empty string nor \<open>0.0.0.0\<close>, the two spellings of the wildcard address, and
  the setup takes no argument, so the address is the same on every run.
\<close>

theorem server_sockets_bind_literal_address:
  "bind_hosts start_tcp_server_setup = [''172.20.10.3''] \<and>
   bind_hosts start_udp_server_setup = [''172.20.10.3''] \<and>
   Bind ''172.20.10.3'' 65432 \<in> set start_tcp_server_setup \<and>
   Bind ''172.20.10.3'' 14117 \<in> set start_udp_server_setup \<and>
   [] \<notin> set (bind_hosts start_tcp_server_setup @ bind_hosts start_udp_server_setup) \<and>
   ''0.0.0.0'' \<notin> set (bind_hosts start_tcp_server_setup @ bind_hosts start_udp_server_setup)"
  by (simp add: start_tcp_server_setup_def start_udp_server_setup_def TCP_PORT_def UDP_PORT_def)

end
